theory Spec2Isabelle
  imports Complex_Main "HOL-Library.AList" "HOL-Library.Multiset"
begin

section \<open>Python primitives used by dataset.py\<close>

text \<open>
  The exceptions the modelled code can raise. \<open>IndexError i u\<close> carries the two numbers
  that \<open>__getitem__\<close> formats into its message: the index and the upper bound.
  \<open>LookupError\<close> stands for a failed subscript of what the external note decoder returns.
\<close>

datatype error =
    IndexError int int
  | KeyError string
  | LookupError
  | ZeroDivisionError
  | ValueError

text \<open>
  Python's \<open>xs[b:e]\<close> with step 1. A bound is \<open>None\<close> or an integer; a negative integer
  counts from the end, and every bound is clamped into \<open>0..len(xs)\<close>. Slicing never raises.
\<close>

definition py_slice :: "int option \<Rightarrow> int option \<Rightarrow> 'a list \<Rightarrow> 'a list" where
  "py_slice b e xs =
     (let n = int (length xs);
          start = (case b of None \<Rightarrow> 0
                   | Some b' \<Rightarrow> if b' < 0 then max (b' + n) 0 else min b' n);
          stop = (case e of None \<Rightarrow> n
                  | Some e' \<Rightarrow> if e' < 0 then max (e' + n) 0 else min e' n)
      in take (nat (stop - start)) (drop (nat start) xs))"

section \<open>Configuration\<close>

text \<open>
  The module \<open>config\<close> is not part of the sources; the constants that dataset.py reads
  from it are the fields of this record. They are Python integers, so nothing in the type
  keeps them non-negative.
\<close>

record ('k, 't) config =
  music_Ci :: int
  music_L :: int
  lyrics_L :: int
  music_feat2id :: "(string \<times> 'k) list"
  tempo_default :: 't

section \<open>Feature normalizer\<close>

text \<open>
  The inner function \<open>padLyrics(lyr)\<close> of \<open>Dataset.padLyrics\<close>, with the pad value
  \<open>pv\<close> of the enclosing call.
\<close>

definition padLyrics :: "('k, 't) config \<Rightarrow> 'a \<Rightarrow> 'a list \<Rightarrow> 'a list" where
  "padLyrics cfg pv lyr =
     (let L = lyrics_L cfg in
      if int (length lyr) < L
      then lyr @ replicate (nat (L - int (length lyr))) pv
      else py_slice None (Some L) lyr)"

text \<open>
  The inner generator \<open>padNote(note)\<close> of \<open>Dataset.padNote\<close>, collected by \<open>list(...)\<close>:
  first the kept tracks, each padded with the integer 0 or cut, then the missing tracks.
\<close>

definition padNote :: "('k, 't) config \<Rightarrow> ('a::zero) list list \<Rightarrow> 'a list list" where
  "padNote cfg note0 =
     (let Ci = music_Ci cfg; L = music_L cfg;
          note = (if int (length note0) > Ci then py_slice None (Some Ci) note0 else note0)
      in map (\<lambda>track. if int (length track) < L
                       then track @ replicate (nat (L - int (length track))) 0
                       else py_slice None (Some L) track) note
         @ replicate (nat (Ci - int (length note))) (replicate (nat L) 0))"

section \<open>Paired dataset\<close>

text \<open>
  Each side of a dataset is a Python dict from column names to columns. Dicts keep insertion
  order and \<open>shuffle\<close> reads \<open>values()\<close> in that order, so such a dict is an association
  list; a well-formed one has distinct keys (\<open>distinct (map fst b)\<close>). The code never looks
  inside a record when it slices or shuffles, so the type of a record value is a parameter.
\<close>

type_synonym 'c coldict = "(string \<times> 'c list) list"

text \<open>
  The state of a \<open>Dataset\<close> object as \<open>__init__\<close> leaves it. The attributes \<open>inp\<close> and
  \<open>tar\<close> are references to dicts, and \<open>load\<close> builds \<open>Dataset(tar, tar, ...)\<close> where
  both are the same dict; so the dicts live in a store and the object holds their addresses.
  \<open>dsize\<close> is the attribute \<open>size\<close>: \<open>__init__\<close> sets it to the \<open>len\<close> of the
  normalized lyrics or note column, so it is a natural number. (When neither dict has such
  a column the attribute is never set and every later use of it raises; such an object is
  not a state of this record.) Nothing ties \<open>dsize\<close> to the columns in the store: that
  the columns are as long as \<open>size\<close> is left to the caller, and is a hypothesis where a
  property needs it.
\<close>

record 'c dataset =
  store :: "nat \<Rightarrow> 'c coldict"
  inp :: nat
  tar :: nat
  bs :: int
  dsize :: nat

text \<open>\<open>Dataset.__len__\<close>: floor division, which raises on a zero divisor.\<close>

definition Dataset_len :: "'c dataset \<Rightarrow> error + int" where
  "Dataset_len d =
     (if bs d = 0 then Inl ZeroDivisionError
      else Inr ((int (dsize d) + bs d - 1) div bs d))"

text \<open>
  The builtin \<open>len(self)\<close>: it calls \<open>__len__\<close> and rejects a negative result. (Its
  upper bound \<open>sys.maxsize\<close> is out of reach: the result is at most \<open>size + 2\<close> in
  absolute value, and \<open>size\<close> is the length of a list in memory.)
\<close>

definition len :: "'c dataset \<Rightarrow> error + int" where
  "len d = (case Dataset_len d of Inl e \<Rightarrow> Inl e
            | Inr n \<Rightarrow> if n < 0 then Inl ValueError else Inr n)"

text \<open>
  One side of the pair that \<open>__getitem__\<close> returns: \<open>None\<close>, a tensor of the lyrics
  slice, or the pair of the note and tempo tensors. \<open>torch.Tensor\<close> is external; the
  model keeps the slice it is given.
\<close>

datatype 'c batch = LyricsBatch "'c list" | NoteTempoBatch "'c list" "'c list"

text \<open>The bounds \<open>begin\<close> and \<open>end\<close> of \<open>__getitem__\<close>, as the two bounds of the slice.\<close>

definition batch_bounds :: "'c dataset \<Rightarrow> int \<Rightarrow> int option \<times> int option" where
  "batch_bounds d i =
     (let lo = bs d * i; hi = lo + bs d
      in (Some lo, if hi \<ge> int (dsize d) then None else Some hi))"

definition batch_slice :: "'c dataset \<Rightarrow> int \<Rightarrow> 'c list \<Rightarrow> 'c list" where
  "batch_slice d i col = (case batch_bounds d i of (lo, hi) \<Rightarrow> py_slice lo hi col)"

text \<open>The body of the loop over \<open>[(0, self.inp), (1, self.tar)]\<close> for one dict.\<close>

definition side_batch :: "'c dataset \<Rightarrow> int \<Rightarrow> 'c coldict \<Rightarrow> error + 'c batch option" where
  "side_batch d i data =
     (let p = (case map_of data ''lyrics'' of None \<Rightarrow> None
               | Some col \<Rightarrow> Some (LyricsBatch (batch_slice d i col)))
      in case map_of data ''note'' of None \<Rightarrow> Inr p
         | Some ncol \<Rightarrow>
             (case map_of data ''tempo'' of None \<Rightarrow> Inl (KeyError ''tempo'')
              | Some tcol \<Rightarrow>
                  Inr (Some (NoteTempoBatch (batch_slice d i ncol) (batch_slice d i tcol)))))"

text \<open>\<open>Dataset.__getitem__\<close>.\<close>

definition getitem :: "'c dataset \<Rightarrow> int \<Rightarrow> error + ('c batch option \<times> 'c batch option)" where
  "getitem d i =
     (case len d of Inl e \<Rightarrow> Inl e
      | Inr n \<Rightarrow>
          if i \<ge> n then Inl (IndexError i (n - 1))
          else (case side_batch d i (store d (inp d)) of Inl e \<Rightarrow> Inl e
                | Inr a \<Rightarrow>
                    (case side_batch d i (store d (tar d)) of Inl e \<Rightarrow> Inl e
                     | Inr b \<Rightarrow> Inr (a, b))))"

subsection \<open>Shuffle\<close>

text \<open>
  \<open>random.shuffle\<close> belongs to the Python standard library: for \<open>i\<close> from \<open>len(x)-1\<close>
  down to 1 it draws \<open>j = randbelow(i+1)\<close> and exchanges \<open>x[i]\<close> and \<open>x[j]\<close>. The random
  source is the parameter \<open>randbelow\<close>; its contract \<open>0 \<le> randbelow(n) < n\<close> is kept by
  reducing the draw modulo \<open>n\<close>. The exchange reads both old values before it writes,
  and \<open>j \<le> i < len(x)\<close> keeps both indices in range.
\<close>

definition swap :: "nat \<Rightarrow> nat \<Rightarrow> 'a list \<Rightarrow> 'a list" where
  "swap i j x = x[i := x ! j, j := x ! i]"

primrec shuffle_loop :: "(nat \<Rightarrow> nat) \<Rightarrow> nat \<Rightarrow> 'a list \<Rightarrow> 'a list" where
  "shuffle_loop randbelow 0 x = x"
| "shuffle_loop randbelow (Suc k) x =
     (let i = Suc k; j = randbelow (i + 1) mod (i + 1)
      in shuffle_loop randbelow k (swap i j x))"

definition random_shuffle :: "(nat \<Rightarrow> nat) \<Rightarrow> 'a list \<Rightarrow> 'a list" where
  "random_shuffle randbelow x = shuffle_loop randbelow (length x - 1) x"

text \<open>
  \<open>zip(*data)\<close>: the i-th tuple holds the i-th element of every list, and the result
  stops with the shortest list; without any list it is empty. Every index read is below
  \<open>min_len\<close>, so within each list.
\<close>

fun min_len :: "'a list list \<Rightarrow> nat" where
  "min_len [] = 0"
| "min_len [c] = length c"
| "min_len (c # cs) = min (length c) (min_len cs)"

definition zip_star :: "'a list list \<Rightarrow> 'a list list" where
  "zip_star data = map (\<lambda>i. map (\<lambda>c. c ! i) data) [0..<min_len data]"

text \<open>The loop \<open>for k, v in zip(d, vs): d[k] = v\<close> over a dict \<open>d\<close>.\<close>

definition set_columns :: "'c coldict \<Rightarrow> 'c list list \<Rightarrow> 'c coldict" where
  "set_columns b vs = fold (\<lambda>(k, v) acc. AList.update k v acc) (zip (map fst b) vs) b"

text \<open>
  \<open>Dataset.shuffle\<close>. The second loop reads \<open>self.tar\<close> and \<open>len(self.inp)\<close> from the
  store as the first loop left it.
\<close>

definition shuffle :: "(nat \<Rightarrow> nat) \<Rightarrow> 'c dataset \<Rightarrow> 'c dataset" where
  "shuffle randbelow d =
     (let h = store d;
          data = map snd (h (inp d)) @ map snd (h (tar d));
          data = zip_star data;
          data = random_shuffle randbelow data;
          data = zip_star data;
          h1 = h(inp d := set_columns (h (inp d))
                   (py_slice None (Some (int (length (h (inp d))))) data));
          h2 = h1(tar d := set_columns (h1 (tar d))
                   (py_slice (Some (int (length (h1 (inp d))))) None data))
      in d\<lparr>store := h2\<rparr>)"

text \<open>The index list that a shuffle of \<open>n\<close> rows with this random source realises.\<close>

definition shuffle_perm :: "(nat \<Rightarrow> nat) \<Rightarrow> nat \<Rightarrow> nat list" where
  "shuffle_perm randbelow n = random_shuffle randbelow [0..<n]"

section \<open>Score decoder\<close>

text \<open>
  \<open>MIDIFile\<close> belongs to the external package midiutil. The model keeps what the decoder
  hands to it: the track count, the \<open>addTempo\<close> calls and the \<open>addNote\<close> calls in order.
  A note event holds the track, the channel and the keyword arguments \<open>**note\<close>; the
  field values are Python integers.
\<close>

record note_event =
  track :: nat
  channel :: nat
  kwargs :: "(string \<times> int) list"

record 't midifile =
  numTracks :: int
  tempo_events :: "(int \<times> int \<times> 't) list"
  note_events :: "note_event list"

definition MIDIFile :: "int \<Rightarrow> 't midifile" where
  "MIDIFile n = \<lparr>numTracks = n, tempo_events = [], note_events = []\<rparr>"

definition addTempo :: "int \<Rightarrow> int \<Rightarrow> 't \<Rightarrow> 't midifile \<Rightarrow> 't midifile" where
  "addTempo tr tm tempo midi = midi\<lparr>tempo_events := tempo_events midi @ [(tr, tm, tempo)]\<rparr>"

definition addNote :: "nat \<Rightarrow> nat \<Rightarrow> (string \<times> int) list \<Rightarrow> 't midifile \<Rightarrow> 't midifile" where
  "addNote tr ch note midi =
     midi\<lparr>note_events := note_events midi @ [\<lparr>track = tr, channel = ch, kwargs = note\<rparr>]\<rparr>"

text \<open>
  The comprehension \<open>{feat: note[id] for feat, id in feat2id}\<close>. The external
  \<open>m2v.id2Note\<close> is a parameter of the decoder; what it returns is subscripted by the
  raw feature ids, and a missing id raises.
\<close>

fun remap :: "(string \<times> 'k) list \<Rightarrow> ('k \<rightharpoonup> int) \<Rightarrow> (string \<times> int) list
    \<Rightarrow> error + (string \<times> int) list" where
  "remap [] raw acc = Inr acc"
| "remap ((feat, rid) # rest) raw acc =
     (case raw rid of None \<Rightarrow> Inl LookupError
      | Some v \<Rightarrow> remap rest raw (AList.update feat v acc))"

text \<open>The inner loop of \<open>vec2midi\<close> over the embeddings of one channel.\<close>

fun channel_loop :: "('k, 't) config \<Rightarrow> ('e \<Rightarrow> 'k \<rightharpoonup> int) \<Rightarrow> nat \<Rightarrow> int \<Rightarrow> 'e list
    \<Rightarrow> 't midifile \<Rightarrow> error + 't midifile" where
  "channel_loop cfg id2Note ch time [] midi = Inr midi"
| "channel_loop cfg id2Note ch time (note_emb # rest) midi =
     (case remap (music_feat2id cfg) (id2Note note_emb) [] of Inl e \<Rightarrow> Inl e
      | Inr note \<Rightarrow>
          (case map_of note ''time'' of None \<Rightarrow> Inl (KeyError ''time'')
           | Some t \<Rightarrow>
               (let time' = t + time; note' = AList.update ''time'' time' note
                in channel_loop cfg id2Note ch time' rest (addNote ch ch note' midi))))"

text \<open>The outer loop over \<open>enumerate(notes)\<close>, from channel number \<open>ch\<close> on.\<close>

fun channels_loop :: "('k, 't) config \<Rightarrow> ('e \<Rightarrow> 'k \<rightharpoonup> int) \<Rightarrow> nat \<Rightarrow> 'e list list
    \<Rightarrow> 't midifile \<Rightarrow> error + 't midifile" where
  "channels_loop cfg id2Note ch [] midi = Inr midi"
| "channels_loop cfg id2Note ch (channel_notes # rest) midi =
     (case channel_loop cfg id2Note ch 0 channel_notes midi of Inl e \<Rightarrow> Inl e
      | Inr midi' \<Rightarrow> channels_loop cfg id2Note (Suc ch) rest midi')"

definition vec2midi :: "('k, 't::times) config \<Rightarrow> ('e \<Rightarrow> 'k \<rightharpoonup> int) \<Rightarrow> 'e list list \<times> 't
    \<Rightarrow> error + 't midifile" where
  "vec2midi cfg id2Note vec =
     (case vec of (notes, tempo) \<Rightarrow>
        channels_loop cfg id2Note 0 notes
          (addTempo 0 0 (tempo * tempo_default cfg) (MIDIFile (music_Ci cfg))))"

text \<open>Reading a score: the events of one track in order, and the onset of an event.\<close>

definition track_events :: "'t midifile \<Rightarrow> nat \<Rightarrow> note_event list" where
  "track_events midi c = filter (\<lambda>ev. track ev = c) (note_events midi)"

definition onset :: "note_event \<Rightarrow> int option" where
  "onset ev = map_of (kwargs ev) ''time''"

text \<open>
  The specification's words for the decoder's time: the decoded time field of one
  embedding, and the running sums of a list of deltas.
\<close>

definition decoded_time :: "('k, 't) config \<Rightarrow> ('e \<Rightarrow> 'k \<rightharpoonup> int) \<Rightarrow> 'e \<Rightarrow> int option" where
  "decoded_time cfg id2Note e =
     (case remap (music_feat2id cfg) (id2Note e) [] of Inl _ \<Rightarrow> None
      | Inr note \<Rightarrow> map_of note ''time'')"

definition running_sums :: "int list \<Rightarrow> int list" where
  "running_sums ts = map (\<lambda>n. sum_list (take (Suc n) ts)) [0..<length ts]"

text \<open>Which column slice a side of the returned pair holds under a column name.\<close>

fun batch_column :: "string \<Rightarrow> 'c batch option \<Rightarrow> 'c list option" where
  "batch_column k None = None"
| "batch_column k (Some (LyricsBatch x)) = (if k = ''lyrics'' then Some x else None)"
| "batch_column k (Some (NoteTempoBatch x y)) =
     (if k = ''note'' then Some x else if k = ''tempo'' then Some y else None)"

section \<open>Example data\<close>

text \<open>
  A small configuration: two channels of two events, lyrics of three tokens, and a feature
  table that reads the time from raw field 0 and the pitch from raw field 1.
\<close>

definition example_config :: "(nat, int) config" where
  "example_config =
     \<lparr>music_Ci = 2, music_L = 2, lyrics_L = 3,
      music_feat2id = [(''time'', 0), (''pitch'', 1)], tempo_default = 120\<rparr>"

text \<open>
  A dataset as \<open>load\<close> builds the translator's: the input dict holds the lyrics, the
  target dict the notes and tempos; seven records in batches of three. A record value is
  shown by a number.
\<close>

definition example_dataset :: "int dataset" where
  "example_dataset =
     \<lparr>store = (\<lambda>a. if a = 0 then [(''lyrics'', [10, 11, 12, 13, 14, 15, 16])]
                   else [(''note'', [20, 21, 22, 23, 24, 25, 26]),
                         (''tempo'', [30, 31, 32, 33, 34, 35, 36])]),
      inp = 0, tar = 1, bs = 3, dsize = 7\<rparr>"

text \<open>
  A note decoder for the examples: an embedding is a number, its raw field 0 (the time
  delta) is that number and its raw field 1 (the pitch) is 60.
\<close>

definition example_id2Note :: "int \<Rightarrow> nat \<rightharpoonup> int" where
  "example_id2Note e = [0 \<mapsto> e, 1 \<mapsto> 60]"

text \<open>The score that the decoder builds from one channel with the time deltas 5, 0, 3.\<close>

definition example_score :: "int midifile" where
  "example_score =
     \<lparr>numTracks = 2, tempo_events = [(0, 0, 120)],
      note_events =
        [\<lparr>track = 0, channel = 0, kwargs = [(''time'', 5), (''pitch'', 60)]\<rparr>,
         \<lparr>track = 0, channel = 0, kwargs = [(''time'', 5), (''pitch'', 60)]\<rparr>,
         \<lparr>track = 0, channel = 0, kwargs = [(''time'', 8), (''pitch'', 60)]\<rparr>]\<rparr>"

text \<open>
  The score that the decoder builds from the normalized matrix \<open>[[10, 0], [0, 0]]\<close>:
  one event for each of the four slots.
\<close>

definition scenario_score :: "int midifile" where
  "scenario_score =
     \<lparr>numTracks = 2, tempo_events = [(0, 0, 120)],
      note_events =
        [\<lparr>track = 0, channel = 0, kwargs = [(''time'', 10), (''pitch'', 60)]\<rparr>,
         \<lparr>track = 0, channel = 0, kwargs = [(''time'', 10), (''pitch'', 60)]\<rparr>,
         \<lparr>track = 1, channel = 1, kwargs = [(''time'', 0), (''pitch'', 60)]\<rparr>,
         \<lparr>track = 1, channel = 1, kwargs = [(''time'', 0), (''pitch'', 60)]\<rparr>]\<rparr>"

text \<open>
  The dataset that \<open>load\<close> builds for the autoencoder, \<open>Dataset(tar, tar, ...)\<close>: both
  attributes refer to the same dict.
\<close>

definition example_autoencoder :: "int dataset" where
  "example_autoencoder = example_dataset\<lparr>inp := 1\<rparr>"

text \<open>A random source for the examples: every draw is 0.\<close>

definition example_randbelow :: "nat \<Rightarrow> nat" where
  "example_randbelow n = 0"

section \<open>Slicing lemmas\<close>

lemma py_slice_prefix:
  "0 \<le> k \<Longrightarrow> py_slice None (Some k) xs = take (nat k) xs"
  by (simp add: py_slice_def Let_def min_def)

section \<open>Properties of the normalizer\<close>

lemma padLyrics_unfold:
  assumes "0 \<le> lyrics_L cfg"
  shows "padLyrics cfg pv lyr =
         take (nat (lyrics_L cfg)) lyr @ replicate (nat (lyrics_L cfg) - length lyr) pv"
  using assms by (auto simp: padLyrics_def Let_def py_slice_prefix nat_diff_distrib')

lemma padLyrics_length:
  "0 \<le> lyrics_L cfg \<Longrightarrow> length (padLyrics cfg pv lyr) = nat (lyrics_L cfg)"
  by (simp add: padLyrics_unfold)


lemma padNote_unfold:
  assumes "0 \<le> music_Ci cfg" "0 \<le> music_L cfg"
  shows "padNote cfg m =
         map (\<lambda>tr. take (nat (music_L cfg)) tr @ replicate (nat (music_L cfg) - length tr) 0)
             (take (nat (music_Ci cfg)) m)
         @ replicate (nat (music_Ci cfg) - length m) (replicate (nat (music_L cfg)) 0)"
  using assms
  by (auto simp: padNote_def Let_def py_slice_prefix nat_diff_distrib' min_def)

text \<open>
  Claim C5. With non-negative dimensions \<open>Ci\<close> and \<open>L\<close>, \<open>padNote\<close> keeps the first
  \<open>Ci\<close> channels, cuts each kept channel to its first \<open>L\<close> events or fills it on the right
  with zeros, and appends all-zero channels of length \<open>L\<close> for the missing ones. The result
  has exactly \<open>Ci\<close> channels of exactly \<open>L\<close> events, and the empty matrix gives \<open>Ci\<close>
  all-zero channels.
\<close>

theorem padNote_shape:
  assumes "0 \<le> music_Ci cfg" "0 \<le> music_L cfg"
  shows "padNote cfg m =
           map (\<lambda>tr. take (nat (music_L cfg)) tr @ replicate (nat (music_L cfg) - length tr) 0)
               (take (nat (music_Ci cfg)) m)
           @ replicate (nat (music_Ci cfg) - length m) (replicate (nat (music_L cfg)) 0)
       \<and> length (padNote cfg m) = nat (music_Ci cfg)
       \<and> (\<forall>ch \<in> set (padNote cfg m). length ch = nat (music_L cfg))
       \<and> padNote cfg [] = replicate (nat (music_Ci cfg)) (replicate (nat (music_L cfg)) 0)"
  unfolding padNote_unfold[OF assms] by auto

theorem padNote_shape_witness:
  "0 \<le> music_Ci example_config \<and> 0 \<le> music_L example_config
   \<and> length (padNote example_config [[7, 8, 9], [1], [2 :: int]]) = 2
   \<and> padNote example_config [[7, 8, 9], [1], [2 :: int]] = [[7, 8], [1, 0]]
   \<and> padNote example_config [[7 :: int]] = [[7, 0], [0, 0]]
   \<and> padNote example_config ([] :: int list list) = [[0, 0], [0, 0]]"
proof -
  have h: "0 \<le> music_Ci example_config" "0 \<le> music_L example_config"
    by (simp_all add: example_config_def)
  have n: "nat (music_Ci example_config) = 2" "nat (music_L example_config) = 2"
    by (simp_all add: example_config_def)
  have v: "padNote example_config [[7, 8, 9], [1], [2 :: int]] = [[7, 8], [1, 0]]"
    "padNote example_config [[7 :: int]] = [[7, 0], [0, 0]]"
    "padNote example_config ([] :: int list list) = [[0, 0], [0, 0]]"
    by (simp_all add: padNote_def py_slice_def example_config_def numeral_2_eq_2)
  show ?thesis
    using h v padNote_shape[OF h, of "[[7, 8, 9], [1], [2 :: int]]"] unfolding n by blast
qed

text \<open>
  Claim C8. With a non-negative \<open>L\<close>, \<open>padLyrics\<close> returns the first \<open>L\<close> elements of a
  sequence of at least \<open>L\<close> elements, and otherwise the sequence followed by
  \<open>L - len(seq)\<close> copies of the pad value. The function is total: no input length raises.
  At the boundary, a sequence of \<open>L\<close> elements comes back unchanged, one of \<open>L + 1\<close>
  loses its last element, and one of \<open>L - 1\<close> gains one pad element.
\<close>

theorem padLyrics_spec:
  assumes "0 \<le> lyrics_L cfg"
  shows "(lyrics_L cfg \<le> int (length s) \<longrightarrow> padLyrics cfg pv s = take (nat (lyrics_L cfg)) s)
       \<and> (int (length s) < lyrics_L cfg \<longrightarrow>
            padLyrics cfg pv s = s @ replicate (nat (lyrics_L cfg) - length s) pv)
       \<and> (int (length s) = lyrics_L cfg \<longrightarrow> padLyrics cfg pv s = s)
       \<and> (int (length s) = lyrics_L cfg + 1 \<longrightarrow> padLyrics cfg pv s = butlast s)
       \<and> (int (length s) = lyrics_L cfg - 1 \<longrightarrow> padLyrics cfg pv s = s @ [pv])"
proof -
  define n where "n = nat (lyrics_L cfg)"
  have L: "lyrics_L cfg = int n"
    using assms by (simp add: n_def)
  have u: "padLyrics cfg pv s = take n s @ replicate (n - length s) pv"
    using padLyrics_unfold[OF assms] by (simp add: n_def)
  have "n \<le> length s \<Longrightarrow> padLyrics cfg pv s = take n s"
    by (simp add: u)
  moreover have "length s < n \<Longrightarrow> padLyrics cfg pv s = s @ replicate (n - length s) pv"
    by (simp add: u)
  moreover have "length s = n \<Longrightarrow> padLyrics cfg pv s = s"
    by (simp add: u)
  moreover have "length s = n + 1 \<Longrightarrow> padLyrics cfg pv s = butlast s"
    by (simp add: u butlast_conv_take)
  moreover have "Suc (length s) = n \<Longrightarrow> padLyrics cfg pv s = s @ [pv]"
  proof -
    assume a: "Suc (length s) = n"
    then have "n - length s = Suc 0" by simp
    then show ?thesis using a by (simp add: u)
  qed
  ultimately show ?thesis
    unfolding L nat_int by (auto simp: of_nat_eq_iff[symmetric] simp del: of_nat_eq_iff)
qed

theorem padLyrics_spec_witness:
  "0 \<le> lyrics_L example_config
   \<and> padLyrics example_config (9 :: int) [1, 2, 3] = [1, 2, 3]
   \<and> padLyrics example_config (9 :: int) [1, 2, 3, 4] = butlast [1, 2, 3, 4]
   \<and> padLyrics example_config (9 :: int) [1, 2] = [1, 2] @ [9]"
proof -
  have h: "0 \<le> lyrics_L example_config"
    by (simp add: example_config_def)
  have "int (length [1, 2, 3 :: int]) = lyrics_L example_config"
    and "int (length [1, 2, 3, 4 :: int]) = lyrics_L example_config + 1"
    and "int (length [1, 2 :: int]) = lyrics_L example_config - 1"
    by (simp_all add: example_config_def)
  then show ?thesis
    using h padLyrics_spec[OF h, of "[1, 2, 3 :: int]" 9]
      padLyrics_spec[OF h, of "[1, 2, 3, 4 :: int]" 9]
      padLyrics_spec[OF h, of "[1, 2 :: int]" 9]
    by blast
qed

text \<open>
  Claim C9. With a non-negative \<open>L\<close> and a fixed pad value, normalizing a lyric sequence
  twice gives the same result as normalizing it once.
\<close>

theorem padLyrics_idem:
  assumes "0 \<le> lyrics_L cfg"
  shows "padLyrics cfg pv (padLyrics cfg pv x) = padLyrics cfg pv x"
  unfolding padLyrics_unfold[OF assms] by simp

theorem padLyrics_idem_witness:
  "0 \<le> lyrics_L example_config
   \<and> padLyrics example_config (9 :: int) (padLyrics example_config 9 [1, 2])
       = padLyrics example_config 9 [1, 2]"
proof -
  have h: "0 \<le> lyrics_L example_config"
    by (simp add: example_config_def)
  show ?thesis
    using h padLyrics_idem[OF h, of 9 "[1, 2 :: int]"] by blast
qed

section \<open>Batching\<close>

subsection \<open>Arithmetic of the batch count\<close>




lemma ceil_div:
  fixes n b :: int
  assumes "1 \<le> b"
  shows "(n + b - 1) div b = \<lceil>real_of_int n / real_of_int b\<rceil>"
proof -
  define q where "q = (n + b - 1) div b"
  define r where "r = (n + b - 1) mod b"
  have e: "q * b + r = n + b - 1"
    unfolding q_def r_def by (rule div_mult_mod_eq)
  have r: "0 \<le> r" "r < b"
    using assms by (simp_all add: r_def)
  have "n \<le> q * b" and "(q - 1) * b < n"
    using e r by (simp_all add: algebra_simps)
  then have "real_of_int n \<le> real_of_int q * real_of_int b"
    and "(real_of_int q - 1) * real_of_int b < real_of_int n"
    by (metis of_int_le_iff of_int_mult, metis of_int_less_iff of_int_mult of_int_diff of_int_1)
  then have "real_of_int n / real_of_int b \<le> real_of_int q"
    and "real_of_int q - 1 < real_of_int n / real_of_int b"
    using assms by (simp_all add: pos_divide_le_eq pos_less_divide_eq)
  then have "\<lceil>real_of_int n / real_of_int b\<rceil> = q"
    by (intro ceiling_unique) simp_all
  then show ?thesis by (simp add: q_def)
qed


subsection \<open>Length\<close>

lemma len_ok:
  assumes "1 \<le> bs d"
  shows "len d = Inr ((int (dsize d) + bs d - 1) div bs d)"
proof -
  have "0 \<le> (int (dsize d) + bs d - 1) div bs d"
    using assms by (simp add: pos_imp_zdiv_nonneg_iff)
  then show ?thesis
    using assms by (simp add: len_def Dataset_len_def)
qed


lemma len_error:
  "len d = Inl e \<Longrightarrow> e = ZeroDivisionError \<or> e = ValueError"
  by (auto simp: len_def Dataset_len_def split: if_splits)

lemma len_nonneg:
  "len d = Inr n \<Longrightarrow> 0 \<le> n"
  by (auto simp: len_def split: sum.splits if_splits)

subsection \<open>Slices\<close>

lemma py_slice_from:
  "py_slice (Some (int a)) None xs = drop a xs"
  by (simp add: py_slice_def Let_def min_def)




lemma batch_slice_last_negative:
  assumes "1 \<le> bs d" "bs d \<le> int (dsize d)"
  shows "batch_slice d (- 1) col = []"
  using assms by (simp add: batch_slice_def batch_bounds_def py_slice_def Let_def)

subsection \<open>What a retrieval returns\<close>

lemma side_batch_column:
  assumes "side_batch d i data = Inr p" "batch_column k p = Some s"
  shows "\<exists>col. map_of data k = Some col \<and> s = batch_slice d i col"
  using assms
  by (auto simp: side_batch_def Let_def split: option.splits if_splits)

lemma side_batch_error:
  "side_batch d i data = Inl e \<Longrightarrow> e = KeyError ''tempo''"
  by (auto simp: side_batch_def Let_def split: option.splits)

lemma side_batch_empty:
  assumes "\<forall>col. batch_slice d i col = []" and "side_batch d i data = Inr p"
  shows "p = None \<or> p = Some (LyricsBatch []) \<or> p = Some (NoteTempoBatch [] [])"
  using assms by (auto simp: side_batch_def Let_def split: option.splits)

lemma side_batch_returns:
  assumes "map_of data ''note'' \<noteq> None \<longrightarrow> map_of data ''tempo'' \<noteq> None"
  shows "\<exists>p. side_batch d i data = Inr p"
  using assms by (auto simp: side_batch_def Let_def split: option.splits)

lemma getitem_sides:
  assumes "getitem d i = Inr r"
  shows "side_batch d i (store d (inp d)) = Inr (fst r) \<and> side_batch d i (store d (tar d)) = Inr (snd r)"
  using assms
  by (auto simp: getitem_def split: sum.splits if_splits)

lemma getitem_error:
  assumes "getitem d i = Inl e"
  shows "e = ZeroDivisionError \<or> e = ValueError \<or> e = KeyError ''tempo''
         \<or> (\<exists>n. len d = Inr n \<and> n \<le> i \<and> e = IndexError i (n - 1))"
proof (cases "len d")
  case (Inl e')
  then show ?thesis
    using assms len_error[of d e'] by (auto simp: getitem_def)
next
  case (Inr n)
  show ?thesis
  proof (cases "n \<le> i")
    case True
    then show ?thesis
      using assms Inr by (simp add: getitem_def)
  next
    case False
    then have "e = KeyError ''tempo''"
      using assms Inr
      by (auto simp: getitem_def split: sum.splits dest: side_batch_error)
    then show ?thesis by simp
  qed
qed

subsection \<open>Claims about the batch count and the range check\<close>

text \<open>
  Claim C7. For a batch size of at least 1 (the size is the length of a column, never
  negative), the length of the dataset, its number of batches, is the ceiling of
  \<open>size / batchSize\<close>; with size 7 and batch size 3 it is 3.
\<close>

theorem len_ceiling:
  assumes "1 \<le> bs d"
  shows "len d = Inr \<lceil>real (dsize d) / real_of_int (bs d)\<rceil>"
  using len_ok[OF assms] ceil_div[OF assms, of "int (dsize d)"] by simp

theorem len_ceiling_witness:
  "1 \<le> bs example_dataset \<and> len example_dataset = Inr 3"
proof -
  have h: "1 \<le> bs example_dataset"
    by (simp add: example_dataset_def)
  have "\<lceil>real (dsize example_dataset) / real_of_int (bs example_dataset)\<rceil> = 3"
    by (simp add: example_dataset_def)
  then show ?thesis
    using h len_ceiling[OF h] by simp
qed

text \<open>
  Claim C6. For a batch size of at least 1, retrieval of batch \<open>i\<close> raises the
  out-of-range error exactly when \<open>i\<close> is at least the batch count \<open>n\<close>, and the error then
  carries \<open>i\<close> and the upper bound \<open>n - 1\<close>. This holds for every integer \<open>i\<close>, the
  non-negative ones among them; with size 7 and batch size 3, index 3 raises it.
\<close>

theorem getitem_out_of_range:
  assumes "1 \<le> bs d"
  shows "\<exists>n. len d = Inr n
           \<and> ((\<exists>a b. getitem d i = Inl (IndexError a b)) \<longleftrightarrow> n \<le> i)
           \<and> (n \<le> i \<longrightarrow> getitem d i = Inl (IndexError i (n - 1)))"
proof -
  define n where "n = (int (dsize d) + bs d - 1) div bs d"
  have l: "len d = Inr n"
    using len_ok[OF assms] by (simp add: n_def)
  have "getitem d i = Inl (IndexError i (n - 1))" if "n \<le> i"
    using that l by (simp add: getitem_def)
  moreover have "getitem d i \<noteq> Inl (IndexError a b)" if "\<not> n \<le> i" for a b
    using that l
    by (auto simp: getitem_def side_batch_def Let_def split: sum.splits option.splits)
  ultimately show ?thesis
    using l by blast
qed

theorem getitem_out_of_range_witness:
  "1 \<le> bs example_dataset \<and> getitem example_dataset 3 = Inl (IndexError 3 2)"
proof -
  have h: "1 \<le> bs example_dataset"
    by (simp add: example_dataset_def)
  have l: "len example_dataset = Inr 3"
    by (simp add: len_def Dataset_len_def example_dataset_def)
  show ?thesis
    using h l getitem_out_of_range[OF h, of 3] by auto
qed

text \<open>
  Claim C10. For every dataset and every negative index \<open>i\<close>, retrieval does not raise
  the out-of-range error. It slices with the bounds \<open>begin = batchSize * i\<close> and
  \<open>end = begin + batchSize\<close> (dropped when it reaches the size), negative as they come:
  whatever pair it returns, each side is exactly the lyrics batch, or the note and tempo
  batch, made of the slices \<open>[begin:end]\<close> of that dict's columns, and a slice held under
  a column's name is that slice of that column. With a batch size of at least 1 a pair is
  returned whenever each dict that has a note column has a tempo column too. For index
  \<open>-1\<close> with \<open>1 \<le> batchSize \<le> size\<close> every slice is empty: whatever is returned holds
  empty batches only, and a pair is returned under the same condition.
\<close>

theorem getitem_negative_index:
  assumes "i < 0"
  shows "(let lo = Some (bs d * i);
              hi = (if bs d * i + bs d \<ge> int (dsize d) then None else Some (bs d * i + bs d))
          in (\<forall>a b. getitem d i \<noteq> Inl (IndexError a b))
           \<and> batch_bounds d i = (lo, hi)
           \<and> (\<forall>r. getitem d i = Inr r \<longrightarrow>
                fst r = (case map_of (store d (inp d)) ''note'' of
                           None \<Rightarrow> map_option (\<lambda>col. LyricsBatch (py_slice lo hi col))
                                     (map_of (store d (inp d)) ''lyrics'')
                         | Some ncol \<Rightarrow>
                             map_option (\<lambda>tcol. NoteTempoBatch (py_slice lo hi ncol)
                                                  (py_slice lo hi tcol))
                               (map_of (store d (inp d)) ''tempo''))
              \<and> snd r = (case map_of (store d (tar d)) ''note'' of
                           None \<Rightarrow> map_option (\<lambda>col. LyricsBatch (py_slice lo hi col))
                                     (map_of (store d (tar d)) ''lyrics'')
                         | Some ncol \<Rightarrow>
                             map_option (\<lambda>tcol. NoteTempoBatch (py_slice lo hi ncol)
                                                  (py_slice lo hi tcol))
                               (map_of (store d (tar d)) ''tempo'')))
           \<and> (\<forall>r k s col. getitem d i = Inr r \<and> batch_column k (fst r) = Some s
                  \<and> map_of (store d (inp d)) k = Some col \<longrightarrow> s = py_slice lo hi col)
           \<and> (\<forall>r k s col. getitem d i = Inr r \<and> batch_column k (snd r) = Some s
                  \<and> map_of (store d (tar d)) k = Some col \<longrightarrow> s = py_slice lo hi col)
           \<and> (1 \<le> bs d
                \<and> (\<forall>a \<in> {inp d, tar d}. map_of (store d a) ''note'' \<noteq> None
                                      \<longrightarrow> map_of (store d a) ''tempo'' \<noteq> None)
                \<longrightarrow> (\<exists>r. getitem d i = Inr r)))
       \<and> (i = - 1 \<and> 1 \<le> bs d \<and> bs d \<le> int (dsize d) \<longrightarrow>
            (\<forall>r. getitem d i = Inr r \<longrightarrow>
               fst r \<in> {None, Some (LyricsBatch []), Some (NoteTempoBatch [] [])}
             \<and> snd r \<in> {None, Some (LyricsBatch []), Some (NoteTempoBatch [] [])})
          \<and> ((\<forall>a \<in> {inp d, tar d}. map_of (store d a) ''note'' \<noteq> None
                                      \<longrightarrow> map_of (store d a) ''tempo'' \<noteq> None)
               \<longrightarrow> (\<exists>r. getitem d i = Inr r)))"
proof -
  define lo where "lo = Some (bs d * i)"
  define hi where "hi = (if bs d * i + bs d \<ge> int (dsize d) then None else Some (bs d * i + bs d))"
  have no_range: "getitem d i \<noteq> Inl (IndexError a b)" for a b
  proof
    assume "getitem d i = Inl (IndexError a b)"
    from getitem_error[OF this] obtain n where "len d = Inr n" "n \<le> i"
      by auto
    then show False
      using assms len_nonneg[of d n] by simp
  qed
  have bounds: "batch_bounds d i = (lo, hi)"
    by (simp add: batch_bounds_def Let_def lo_def hi_def)
  have slice: "batch_slice d i col = py_slice lo hi col" for col
    by (simp add: batch_slice_def bounds)
  have side: "p = (case map_of data ''note'' of
                     None \<Rightarrow> map_option (\<lambda>col. LyricsBatch (py_slice lo hi col)) (map_of data ''lyrics'')
                   | Some ncol \<Rightarrow>
                       map_option (\<lambda>tcol. NoteTempoBatch (py_slice lo hi ncol) (py_slice lo hi tcol))
                         (map_of data ''tempo''))"
    if "side_batch d i data = Inr p" for data p
    using that by (auto simp: side_batch_def Let_def slice split: option.splits)
  have exact: "fst r = (case map_of (store d (inp d)) ''note'' of
                           None \<Rightarrow> map_option (\<lambda>col. LyricsBatch (py_slice lo hi col))
                                     (map_of (store d (inp d)) ''lyrics'')
                         | Some ncol \<Rightarrow>
                             map_option (\<lambda>tcol. NoteTempoBatch (py_slice lo hi ncol)
                                                  (py_slice lo hi tcol))
                               (map_of (store d (inp d)) ''tempo''))
              \<and> snd r = (case map_of (store d (tar d)) ''note'' of
                           None \<Rightarrow> map_option (\<lambda>col. LyricsBatch (py_slice lo hi col))
                                     (map_of (store d (tar d)) ''lyrics'')
                         | Some ncol \<Rightarrow>
                             map_option (\<lambda>tcol. NoteTempoBatch (py_slice lo hi ncol)
                                                  (py_slice lo hi tcol))
                               (map_of (store d (tar d)) ''tempo''))"
    if "getitem d i = Inr r" for r
    using getitem_sides[OF that] side by blast
  have left: "s = py_slice lo hi col"
    if "getitem d i = Inr r" "batch_column k (fst r) = Some s"
      "map_of (store d (inp d)) k = Some col" for r k s col
    using getitem_sides[OF that(1)] side_batch_column[of d i "store d (inp d)" "fst r" k s] that
    by (auto simp: slice)
  have right: "s = py_slice lo hi col"
    if "getitem d i = Inr r" "batch_column k (snd r) = Some s"
      "map_of (store d (tar d)) k = Some col" for r k s col
    using getitem_sides[OF that(1)] side_batch_column[of d i "store d (tar d)" "snd r" k s] that
    by (auto simp: slice)
  have empty: "fst r \<in> {None, Some (LyricsBatch []), Some (NoteTempoBatch [] [])}
             \<and> snd r \<in> {None, Some (LyricsBatch []), Some (NoteTempoBatch [] [])}"
    if c: "i = - 1" "1 \<le> bs d" "bs d \<le> int (dsize d)" and r: "getitem d i = Inr r" for r
  proof -
    have e: "\<forall>col. batch_slice d i col = []"
      using batch_slice_last_negative[OF c(2,3)] c(1) by simp
    from getitem_sides[OF r] side_batch_empty[OF e] show ?thesis
      by blast
  qed
  have returns: "\<exists>r. getitem d i = Inr r"
    if c: "1 \<le> bs d"
      and w: "\<forall>a \<in> {inp d, tar d}. map_of (store d a) ''note'' \<noteq> None
                                      \<longrightarrow> map_of (store d a) ''tempo'' \<noteq> None"
  proof -
    obtain n where n: "len d = Inr n" "0 \<le> n"
      using len_ok[OF c] len_nonneg by metis
    obtain p q where "side_batch d i (store d (inp d)) = Inr p"
      "side_batch d i (store d (tar d)) = Inr q"
      using w side_batch_returns[of "store d (inp d)" d i] side_batch_returns[of "store d (tar d)" d i]
      by auto
    then show ?thesis
      using n assms by (simp add: getitem_def)
  qed
  have general: "(\<forall>a b. getitem d i \<noteq> Inl (IndexError a b))
           \<and> batch_bounds d i = (lo, hi)
           \<and> (\<forall>r. getitem d i = Inr r \<longrightarrow>
                fst r = (case map_of (store d (inp d)) ''note'' of
                           None \<Rightarrow> map_option (\<lambda>col. LyricsBatch (py_slice lo hi col))
                                     (map_of (store d (inp d)) ''lyrics'')
                         | Some ncol \<Rightarrow>
                             map_option (\<lambda>tcol. NoteTempoBatch (py_slice lo hi ncol)
                                                  (py_slice lo hi tcol))
                               (map_of (store d (inp d)) ''tempo''))
              \<and> snd r = (case map_of (store d (tar d)) ''note'' of
                           None \<Rightarrow> map_option (\<lambda>col. LyricsBatch (py_slice lo hi col))
                                     (map_of (store d (tar d)) ''lyrics'')
                         | Some ncol \<Rightarrow>
                             map_option (\<lambda>tcol. NoteTempoBatch (py_slice lo hi ncol)
                                                  (py_slice lo hi tcol))
                               (map_of (store d (tar d)) ''tempo'')))
           \<and> (\<forall>r k s col. getitem d i = Inr r \<and> batch_column k (fst r) = Some s
                  \<and> map_of (store d (inp d)) k = Some col \<longrightarrow> s = py_slice lo hi col)
           \<and> (\<forall>r k s col. getitem d i = Inr r \<and> batch_column k (snd r) = Some s
                  \<and> map_of (store d (tar d)) k = Some col \<longrightarrow> s = py_slice lo hi col)
           \<and> (1 \<le> bs d
                \<and> (\<forall>a \<in> {inp d, tar d}. map_of (store d a) ''note'' \<noteq> None
                                      \<longrightarrow> map_of (store d a) ''tempo'' \<noteq> None)
                \<longrightarrow> (\<exists>r. getitem d i = Inr r))"
    using no_range bounds exact left right returns by blast
  have last: "i = - 1 \<and> 1 \<le> bs d \<and> bs d \<le> int (dsize d) \<longrightarrow>
            (\<forall>r. getitem d i = Inr r \<longrightarrow>
               fst r \<in> {None, Some (LyricsBatch []), Some (NoteTempoBatch [] [])}
             \<and> snd r \<in> {None, Some (LyricsBatch []), Some (NoteTempoBatch [] [])})
          \<and> ((\<forall>a \<in> {inp d, tar d}. map_of (store d a) ''note'' \<noteq> None
                                      \<longrightarrow> map_of (store d a) ''tempo'' \<noteq> None)
               \<longrightarrow> (\<exists>r. getitem d i = Inr r))"
    using empty returns by blast
  show ?thesis
    unfolding Let_def lo_def[symmetric] hi_def[symmetric]
    using general last by (rule conjI)
qed

theorem getitem_negative_index_witness:
  "(- 1 :: int) < 0 \<and> (- 2 :: int) < 0
   \<and> 1 \<le> bs example_dataset \<and> bs example_dataset \<le> int (dsize example_dataset)
   \<and> getitem example_dataset (- 1) \<noteq> Inl (IndexError (- 1) 2)
   \<and> batch_bounds example_dataset (- 1) = (Some (- 3), Some 0)
   \<and> getitem example_dataset (- 1) = Inr (Some (LyricsBatch []), Some (NoteTempoBatch [] []))
   \<and> getitem example_dataset (- 2) \<noteq> Inl (IndexError (- 2) 2)
   \<and> batch_bounds example_dataset (- 2) = (Some (- 6), Some (- 3))
   \<and> getitem example_dataset (- 2)
       = Inr (Some (LyricsBatch [11, 12, 13]), Some (NoteTempoBatch [21, 22, 23] [31, 32, 33]))
   \<and> [11, 12, 13] = py_slice (Some (- 6)) (Some (- 3)) [10, 11, 12, 13, 14, 15, 16 :: int]"
proof -
  have h: "(- 1 :: int) < 0" and h2: "(- 2 :: int) < 0"
    by simp_all
  have c: "1 \<le> bs example_dataset" "bs example_dataset \<le> int (dsize example_dataset)"
    by (simp_all add: example_dataset_def)
  have v: "getitem example_dataset (- 1) = Inr (Some (LyricsBatch []), Some (NoteTempoBatch [] []))"
    by (simp add: getitem_def len_def Dataset_len_def side_batch_def batch_slice_def
        batch_bounds_def py_slice_def example_dataset_def)
  have v2: "getitem example_dataset (- 2)
      = Inr (Some (LyricsBatch [11, 12, 13]), Some (NoteTempoBatch [21, 22, 23] [31, 32, 33]))"
    by (simp add: getitem_def len_def Dataset_len_def side_batch_def batch_slice_def
        batch_bounds_def py_slice_def example_dataset_def)
  have e: "bs example_dataset = 3" "dsize example_dataset = 7"
    by (simp_all add: example_dataset_def)
  have m: "map_of (store example_dataset (inp example_dataset)) ''lyrics''
      = Some [10, 11, 12, 13, 14, 15, 16]"
    by (simp add: example_dataset_def)
  note t1 = getitem_negative_index[OF h, of example_dataset, unfolded Let_def, THEN conjunct1]
  note t2 = getitem_negative_index[OF h2, of example_dataset, unfolded Let_def, THEN conjunct1]
  have n1: "getitem example_dataset (- 1) \<noteq> Inl (IndexError (- 1) 2)"
    using t1[THEN conjunct1] by (elim allE)
  have b1: "batch_bounds example_dataset (- 1) = (Some (- 3), Some 0)"
    using t1[THEN conjunct2, THEN conjunct1] by (simp add: e)
  have n2: "getitem example_dataset (- 2) \<noteq> Inl (IndexError (- 2) 2)"
    using t2[THEN conjunct1] by (elim allE)
  have b2: "batch_bounds example_dataset (- 2) = (Some (- 6), Some (- 3))"
    using t2[THEN conjunct2, THEN conjunct1] by (simp add: e)
  have "\<forall>r k s col. getitem example_dataset (- 2) = Inr r \<and> batch_column k (fst r) = Some s
      \<and> map_of (store example_dataset (inp example_dataset)) k = Some col
      \<longrightarrow> s = py_slice (Some (- 6)) (Some (- 3)) col"
    using t2[THEN conjunct2, THEN conjunct2, THEN conjunct2, THEN conjunct1] by (simp add: e)
  moreover have "batch_column ''lyrics''
      (fst (Some (LyricsBatch [11, 12, 13 :: int]), Some (NoteTempoBatch [21, 22, 23 :: int] [31, 32, 33])))
      = Some [11, 12, 13]"
    by simp
  ultimately have s2: "[11, 12, 13] = py_slice (Some (- 6)) (Some (- 3)) [10, 11, 12, 13, 14, 15, 16 :: int]"
    using v2 m by blast
  show ?thesis
    by (intro conjI) (rule h h2 c v v2 n1 b1 n2 b2 s2)+
qed

subsection \<open>Claim about batch coverage\<close>



section \<open>Decoding\<close>

subsection \<open>The events of one channel and of all channels\<close>

lemma running_sums_Cons:
  "running_sums (t # ts) = t # map (\<lambda>s. t + s) (running_sums ts)"
  by (simp add: running_sums_def map_upt_Suc del: upt_Suc)

lemma onset_addNote_event:
  "onset \<lparr>track = tr, channel = ch, kwargs = AList.update ''time'' v nt\<rparr> = Some v"
  by (simp add: onset_def update_conv')

lemma channel_loop_events:
  assumes "channel_loop cfg f ch t es midi = Inr midi'"
  shows "\<exists>evs ts. note_events midi' = note_events midi @ evs
           \<and> (\<forall>ev \<in> set evs. track ev = ch)
           \<and> map (decoded_time cfg f) es = map Some ts
           \<and> map onset evs = map (\<lambda>s. Some (t + s)) (running_sums ts)"
  using assms
proof (induction es arbitrary: t midi)
  case Nil
  then show ?case by (simp add: running_sums_def)
next
  case (Cons e es)
  from Cons.prems obtain nt t0 where
    r: "remap (music_feat2id cfg) (f e) [] = Inr nt" and
    t0: "map_of nt ''time'' = Some t0" and
    rec: "channel_loop cfg f ch (t0 + t) es
            (addNote ch ch (AList.update ''time'' (t0 + t) nt) midi) = Inr midi'"
    by (auto simp: Let_def split: sum.splits option.splits)
  define ev where "ev = \<lparr>track = ch, channel = ch, kwargs = AList.update ''time'' (t0 + t) nt\<rparr>"
  from Cons.IH[OF rec] obtain evs ts where
    n: "note_events midi' = (note_events midi @ [ev]) @ evs" and
    tr: "\<forall>ev \<in> set evs. track ev = ch" and
    dt: "map (decoded_time cfg f) es = map Some ts" and
    on: "map onset evs = map (\<lambda>s. Some (t0 + t + s)) (running_sums ts)"
    by (auto simp: addNote_def ev_def)
  have "decoded_time cfg f e = Some t0"
    using r t0 by (simp add: decoded_time_def)
  then have "map (decoded_time cfg f) (e # es) = map Some (t0 # ts)"
    using dt by simp
  moreover have "map onset (ev # evs) = map (\<lambda>s. Some (t + s)) (running_sums (t0 # ts))"
    using on by (simp add: running_sums_Cons ev_def onset_addNote_event add.assoc add.commute)
  moreover have "\<forall>ev' \<in> set (ev # evs). track ev' = ch"
    using tr by (simp add: ev_def)
  moreover have "note_events midi' = note_events midi @ (ev # evs)"
    using n by simp
  ultimately show ?case by blast
qed

lemma channels_loop_tracks:
  assumes "channels_loop cfg f c0 chans midi = Inr midi'"
  shows "\<exists>evs. track_events midi' c = track_events midi c @ evs
           \<and> (if c0 \<le> c \<and> c < c0 + length chans
               then \<exists>ts. map (decoded_time cfg f) (chans ! (c - c0)) = map Some ts
                      \<and> map onset evs = map Some (running_sums ts)
               else evs = [])"
  using assms
proof (induction chans arbitrary: c0 midi)
  case Nil
  have "\<not> (c0 \<le> c \<and> c < c0 + length ([] :: 'c list list))"
    by simp
  with Nil show ?case by auto
next
  case (Cons cn rest)
  from Cons.prems obtain midi1 where
    one: "channel_loop cfg f c0 0 cn midi = Inr midi1" and
    rec: "channels_loop cfg f (Suc c0) rest midi1 = Inr midi'"
    by (auto split: sum.splits)
  from channel_loop_events[OF one] obtain evs1 ts1 where
    n1: "note_events midi1 = note_events midi @ evs1" and
    tr1: "\<forall>ev \<in> set evs1. track ev = c0" and
    dt1: "map (decoded_time cfg f) cn = map Some ts1" and
    on1: "map onset evs1 = map Some (running_sums ts1)"
    by auto
  have f1: "filter (\<lambda>ev. track ev = c) evs1 = (if c = c0 then evs1 else [])"
    using tr1 by (auto simp: filter_empty_conv)
  have t1: "track_events midi1 c = track_events midi c @ (if c = c0 then evs1 else [])"
    by (simp add: track_events_def n1 f1)
  from Cons.IH[OF rec] obtain evs where
    t2: "track_events midi' c = track_events midi1 c @ evs" and
    rest: "if Suc c0 \<le> c \<and> c < Suc c0 + length rest
           then \<exists>ts. map (decoded_time cfg f) (rest ! (c - Suc c0)) = map Some ts
                  \<and> map onset evs = map Some (running_sums ts)
           else evs = []"
    by blast
  show ?case
  proof (cases "c = c0")
    case True
    then have "evs = []" using rest by simp
    then show ?thesis
      using True t1 t2 dt1 on1 by auto
  next
    case False
    then have "track_events midi' c = track_events midi c @ evs"
      using t1 t2 by simp
    moreover have "(c0 \<le> c \<and> c < c0 + length (cn # rest)) = (Suc c0 \<le> c \<and> c < Suc c0 + length rest)"
      using False by auto
    moreover have "c0 \<le> c \<Longrightarrow> (cn # rest) ! (c - c0) = rest ! (c - Suc c0)"
      using False by (simp add: nth_Cons')
    ultimately show ?thesis
      using rest by (auto split: if_splits)
  qed
qed

lemma vec2midi_onsets:
  assumes "vec2midi cfg id2Note (chans, tempo) = Inr midi" and "c < length chans"
  shows "\<exists>ts. map (decoded_time cfg id2Note) (chans ! c) = map Some ts
           \<and> map onset (track_events midi c) = map Some (running_sums ts)"
proof -
  from assms(1) have "channels_loop cfg id2Note 0 chans
      (addTempo 0 0 (tempo * tempo_default cfg) (MIDIFile (music_Ci cfg))) = Inr midi"
    by (simp add: vec2midi_def)
  from channels_loop_tracks[OF this, of c] assms(2) show ?thesis
    by (auto simp: track_events_def addTempo_def MIDIFile_def)
qed

lemma vec2midi_decodes:
  assumes "vec2midi cfg id2Note (chans, tempo) = Inr midi" and "cn \<in> set chans" and "e \<in> set cn"
  shows "decoded_time cfg id2Note e \<noteq> None"
proof -
  from assms(2) obtain c where c: "c < length chans" "chans ! c = cn"
    by (auto simp: in_set_conv_nth)
  from vec2midi_onsets[OF assms(1) c(1)] obtain ts where
    "map (decoded_time cfg id2Note) cn = map Some ts"
    using c(2) by auto
  then have "decoded_time cfg id2Note e \<in> set (map Some ts)"
    using assms(3) by (metis image_eqI list.set_map)
  then show ?thesis by auto
qed

lemma example_decode:
  "vec2midi example_config example_id2Note ([[5, 0, 3]], 1) = Inr example_score"
  by (simp add: vec2midi_def example_config_def example_id2Note_def example_score_def
      addNote_def addTempo_def MIDIFile_def Let_def)

lemma scenario_decode:
  "vec2midi example_config example_id2Note ([[10, 0], [0, 0]], 1) = Inr scenario_score"
  by (simp add: vec2midi_def example_config_def example_id2Note_def scenario_score_def
      addNote_def addTempo_def MIDIFile_def Let_def)

lemma scenario_padNote:
  assumes "music_Ci cfg = 2" "music_L cfg = 2"
  shows "padNote cfg [[e1]] = [[e1, 0], [0, 0]]"
  using assms by (simp add: padNote_def numeral_2_eq_2)

lemma running_sums_two:
  "running_sums [a, b] = [a, a + b]"
  by (simp add: running_sums_Cons running_sums_def)

subsection \<open>Claim about cumulative time\<close>

text \<open>
  Claim C2. When \<open>vec2midi\<close> returns a score, then for every channel \<open>c\<close> of its input
  every embedding of the channel has a decoded time field, and the onsets of the events of
  track \<open>c\<close>, in order, are the running sums of these decoded times: the n-th onset is
  the sum of the first n deltas, the accumulator starting at 0. Three embeddings with the
  deltas 5, 0, 3 give the onsets 5, 5, 8.
\<close>

theorem vec2midi_cumulative_time:
  assumes "vec2midi cfg id2Note (chans, tempo) = Inr midi" and "c < length chans"
  shows "\<exists>ts. map (decoded_time cfg id2Note) (chans ! c) = map Some ts
           \<and> map onset (track_events midi c) = map Some (running_sums ts)"
  using assms by (rule vec2midi_onsets)

theorem vec2midi_cumulative_time_witness:
  "vec2midi example_config example_id2Note ([[5, 0, 3]], 1) = Inr example_score
   \<and> (0 :: nat) < length [[5, 0, 3 :: int]]
   \<and> map (decoded_time example_config example_id2Note) ([[5, 0, 3]] ! 0) = map Some [5, 0, 3]
   \<and> map onset (track_events example_score 0) = map Some (running_sums [5, 0, 3])
   \<and> running_sums [5, 0, 3] = [5, 5, 8]"
proof -
  have h: "(0 :: nat) < length [[5, 0, 3 :: int]]"
    by simp
  have d: "map (decoded_time example_config example_id2Note) ([[5, 0, 3]] ! 0) = map Some [5, 0, 3]"
    by (simp add: decoded_time_def example_config_def example_id2Note_def)
  have r: "running_sums [5, 0, 3] = [5, 5, 8]"
    by code_simp
  from vec2midi_cumulative_time[OF example_decode h] obtain ts where
    t: "map (decoded_time example_config example_id2Note) ([[5, 0, 3]] ! 0) = map Some ts"
    and o: "map onset (track_events example_score 0) = map Some (running_sums ts)"
    by blast
  from t d have "map Some ts = map Some [5, 0, 3]"
    by (simp only:)
  then have "ts = [5, 0, 3]"
    by (simp only: inj_map_eq_map[OF inj_Some])
  with o have "map onset (track_events example_score 0) = map Some (running_sums [5, 0, 3])"
    by (simp only:)
  then show ?thesis
    using example_decode h d r by blast
qed

subsection \<open>Claim about the padded scenario\<close>

text \<open>
  Claim C3, as stated, fails: the decoder has no notion of a pad, it emits one event for
  every slot of the matrix. With \<open>Ci = 2\<close>, \<open>L = 2\<close> and an embedding that resolves to
  time 10 and pitch 60, the normalized matrix is \<open>[[10, 0], [0, 0]]\<close> and its score has two
  events on track 0 and two on track 1.
\<close>

theorem scenario_counterexample:
  "padNote example_config [[10 :: int]] = [[10, 0], [0, 0]]
   \<and> decoded_time example_config example_id2Note 10 = Some 10
   \<and> vec2midi example_config example_id2Note (padNote example_config [[10]], 1)
       = Inr scenario_score
   \<and> \<not> (map onset (track_events scenario_score 0) = [Some 10]
          \<and> track_events scenario_score 1 = [])"
proof -
  have p: "padNote example_config [[10 :: int]] = [[10, 0], [0, 0]]"
    by (rule scenario_padNote) (simp_all add: example_config_def)
  have d: "decoded_time example_config example_id2Note 10 = Some 10"
    by (simp add: decoded_time_def example_config_def example_id2Note_def)
  have v: "vec2midi example_config example_id2Note (padNote example_config [[10]], 1)
      = Inr scenario_score"
    unfolding p by (rule scenario_decode)
  have "track_events scenario_score 1 \<noteq> []"
    by (simp add: track_events_def scenario_score_def)
  then show ?thesis
    using p d v by blast
qed

text \<open>
  Claim C3, amended. With \<open>Ci = 2\<close> and \<open>L = 2\<close>, normalizing \<open>[[e1]]\<close> gives
  \<open>[[e1, 0], [0, 0]]\<close>, and the decoder treats the zero pads as embeddings. When \<open>e1\<close>
  resolves to time 10, then whenever decoding the normalized matrix returns a score, the
  pad 0 has a decoded time \<open>t0\<close>, track 0 of the score holds two events, at the onsets 10
  and \<open>10 + t0\<close>, and track 1 holds two events, at the onsets \<open>t0\<close> and \<open>t0 + t0\<close>.
  Whether a score is returned also rests on the external score library accepting the
  calls, which is not part of this statement.
\<close>

theorem scenario_decodes_pads:
  assumes "music_Ci cfg = 2" and "music_L cfg = 2"
    and "decoded_time cfg id2Note e1 = Some 10"
  shows "padNote cfg [[e1]] = [[e1, 0], [0, 0]]
       \<and> (\<forall>midi. vec2midi cfg id2Note (padNote cfg [[e1]], tempo) = Inr midi \<longrightarrow>
            (\<exists>t0. decoded_time cfg id2Note 0 = Some t0
               \<and> map onset (track_events midi 0) = [Some 10, Some (10 + t0)]
               \<and> map onset (track_events midi 1) = [Some t0, Some (t0 + t0)]))"
proof -
  have p: "padNote cfg [[e1]] = [[e1, 0], [0, 0]]"
    using assms(1,2) by (rule scenario_padNote)
  have dec: "decoded_time cfg id2Note 0 \<noteq> None"
    if "vec2midi cfg id2Note ([[e1, 0], [0, 0]], tempo) = Inr midi" for midi
    using vec2midi_decodes[OF that, of "[0, 0]" 0] by simp
  have ons: "\<exists>t0. decoded_time cfg id2Note 0 = Some t0
               \<and> map onset (track_events midi 0) = [Some 10, Some (10 + t0)]
               \<and> map onset (track_events midi 1) = [Some t0, Some (t0 + t0)]"
    if v: "vec2midi cfg id2Note ([[e1, 0], [0, 0]], tempo) = Inr midi" for midi
  proof -
    from dec[OF v] obtain t0 where t0: "decoded_time cfg id2Note 0 = Some t0"
      by auto
    from vec2midi_onsets[OF v, of 0]
    have "\<exists>ts. map (decoded_time cfg id2Note) [e1, 0] = map Some ts
        \<and> map onset (track_events midi 0) = map Some (running_sums ts)"
      by simp
    then obtain ts where
      d0: "map (decoded_time cfg id2Note) [e1, 0] = map Some ts"
      and o0: "map onset (track_events midi 0) = map Some (running_sums ts)"
      by blast
    from d0 have "ts = [10, t0]"
      using assms(3) t0 by (auto simp: Cons_eq_map_conv)
    then have a: "map onset (track_events midi 0) = [Some 10, Some (10 + t0)]"
      using o0 by (simp add: running_sums_two)
    from vec2midi_onsets[OF v, of 1]
    have "\<exists>ts. map (decoded_time cfg id2Note) [0, 0] = map Some ts
        \<and> map onset (track_events midi 1) = map Some (running_sums ts)"
      by simp
    then obtain ts' where
      d1: "map (decoded_time cfg id2Note) [0, 0] = map Some ts'"
      and o1: "map onset (track_events midi 1) = map Some (running_sums ts')"
      by blast
    from d1 have "ts' = [t0, t0]"
      using t0 by (auto simp: Cons_eq_map_conv)
    then have "map onset (track_events midi 1) = [Some t0, Some (t0 + t0)]"
      using o1 by (simp add: running_sums_two)
    with t0 a show ?thesis
      by simp
  qed
  show ?thesis
    unfolding p using ons by blast
qed

theorem scenario_decodes_pads_witness:
  "music_Ci example_config = 2 \<and> music_L example_config = 2
   \<and> decoded_time example_config example_id2Note 10 = Some 10
   \<and> decoded_time example_config example_id2Note 0 = Some 0
   \<and> vec2midi example_config example_id2Note (padNote example_config [[10]], 1)
       = Inr scenario_score
   \<and> map onset (track_events scenario_score 0) = [Some 10, Some (10 + 0)]
   \<and> map onset (track_events scenario_score 1) = [Some 0, Some (0 + 0)]"
proof -
  have h: "music_Ci example_config = 2" "music_L example_config = 2"
    "decoded_time example_config example_id2Note 10 = Some 10"
    by (simp_all add: decoded_time_def example_config_def example_id2Note_def)
  have z: "decoded_time example_config example_id2Note 0 = Some 0"
    by (simp add: decoded_time_def example_config_def example_id2Note_def)
  have v: "vec2midi example_config example_id2Note (padNote example_config [[10]], 1)
      = Inr scenario_score"
    unfolding scenario_padNote[OF h(1,2)] by (rule scenario_decode)
  from scenario_decodes_pads[OF h, of 1] v z
  have "map onset (track_events scenario_score 0) = [Some 10, Some (10 + 0)]
      \<and> map onset (track_events scenario_score 1) = [Some 0, Some (0 + 0)]"
    by auto
  then show ?thesis
    using h z v by blast
qed

section \<open>Shuffling\<close>

subsection \<open>The library shuffle permutes\<close>

lemma length_swap: "length (swap i j x) = length x"
  by (simp add: swap_def)

lemma map_swap:
  assumes "i < length x" "j < length x"
  shows "map f (swap i j x) = swap i j (map f x)"
  using assms by (simp add: swap_def map_update)

lemma mset_swap_list:
  assumes "i < length x" "j < length x"
  shows "mset (swap i j x) = mset x"
  unfolding swap_def using mset_swap[OF assms(2,1)] .

lemma length_shuffle_loop: "length (shuffle_loop rb k x) = length x"
  by (induction k arbitrary: x) (simp_all add: Let_def length_swap)

lemma map_shuffle_loop:
  assumes "k < length x"
  shows "map f (shuffle_loop rb k x) = shuffle_loop rb k (map f x)"
  using assms
proof (induction k arbitrary: x)
  case 0
  show ?case by simp
next
  case (Suc k)
  define j where "j = rb (Suc k + 1) mod (Suc k + 1)"
  have "j < Suc (Suc k)"
    by (simp add: j_def)
  then have j: "j < length x"
    using Suc.prems by linarith
  have "map f (shuffle_loop rb k (swap (Suc k) j x)) = shuffle_loop rb k (map f (swap (Suc k) j x))"
    using Suc.prems by (intro Suc.IH) (simp add: length_swap)
  then show ?case
    using map_swap[OF Suc.prems j, of f] by (simp add: Let_def j_def)
qed

lemma mset_shuffle_loop:
  assumes "k < length x"
  shows "mset (shuffle_loop rb k x) = mset x"
  using assms
proof (induction k arbitrary: x)
  case 0
  show ?case by simp
next
  case (Suc k)
  define j where "j = rb (Suc k + 1) mod (Suc k + 1)"
  have "j < Suc (Suc k)"
    by (simp add: j_def)
  then have j: "j < length x"
    using Suc.prems by linarith
  have "mset (shuffle_loop rb k (swap (Suc k) j x)) = mset (swap (Suc k) j x)"
    using Suc.prems by (intro Suc.IH) (simp add: length_swap)
  then show ?case
    using mset_swap_list[OF Suc.prems j] by (simp add: Let_def j_def)
qed

lemma length_random_shuffle: "length (random_shuffle rb x) = length x"
  by (simp add: random_shuffle_def length_shuffle_loop)

lemma map_random_shuffle: "map f (random_shuffle rb x) = random_shuffle rb (map f x)"
proof (cases x)
  case Nil
  then show ?thesis by (simp add: random_shuffle_def)
next
  case (Cons a as)
  then show ?thesis
    by (simp add: random_shuffle_def map_shuffle_loop)
qed

lemma mset_random_shuffle: "mset (random_shuffle rb x) = mset x"
proof (cases x)
  case Nil
  then show ?thesis by (simp add: random_shuffle_def)
next
  case (Cons a as)
  then show ?thesis
    by (simp add: random_shuffle_def mset_shuffle_loop)
qed

lemma mset_shuffle_perm: "mset (shuffle_perm rb n) = mset [0..<n]"
  unfolding shuffle_perm_def by (rule mset_random_shuffle)

lemma length_shuffle_perm: "length (shuffle_perm rb n) = n"
  by (simp add: shuffle_perm_def length_random_shuffle)

lemma random_shuffle_nth:
  "random_shuffle rb x = map (\<lambda>i. x ! i) (shuffle_perm rb (length x))"
proof -
  have "random_shuffle rb (map (\<lambda>i. x ! i) [0..<length x])
      = map (\<lambda>i. x ! i) (random_shuffle rb [0..<length x])"
    by (rule map_random_shuffle[symmetric])
  then show ?thesis
    by (simp only: map_nth shuffle_perm_def)
qed

subsection \<open>Transposing twice\<close>

lemma min_len_uniform:
  assumes "data \<noteq> []" "\<forall>c \<in> set data. length c = n"
  shows "min_len data = n"
  using assms by (induction data rule: min_len.induct) simp_all

lemma zip_star_uniform:
  assumes "data \<noteq> []" "\<forall>c \<in> set data. length c = n"
  shows "zip_star data = map (\<lambda>i. map (\<lambda>c. c ! i) data) [0..<n]"
  by (simp add: zip_star_def min_len_uniform[OF assms])

lemma shuffled_columns:
  assumes "\<forall>c \<in> set data. length c = n"
  shows "zip_star (random_shuffle rb (zip_star data))
       = (if n = 0 then [] else map (\<lambda>c. map (\<lambda>i. c ! i) (shuffle_perm rb n)) data)"
proof (cases "data = [] \<or> n = 0")
  case True
  then have "zip_star data = []"
  proof
    assume "data = []"
    then show ?thesis by (simp add: zip_star_def)
  next
    assume "n = 0"
    then show ?thesis
      using assms by (cases "data = []") (simp_all add: zip_star_def min_len_uniform)
  qed
  then have "zip_star (random_shuffle rb (zip_star data)) = []"
    by (simp add: random_shuffle_def zip_star_def)
  then show ?thesis
    using True by auto
next
  case False
  then have ne: "data \<noteq> []" and n: "0 < n"
    by simp_all
  define p where "p = shuffle_perm rb n"
  define m where "m = length data"
  have rows: "zip_star data = map (\<lambda>i. map (\<lambda>c. c ! i) data) [0..<n]"
    by (rule zip_star_uniform[OF ne assms])
  have "random_shuffle rb (zip_star data) = map (\<lambda>i. map (\<lambda>c. c ! i) data) p"
    unfolding rows p_def shuffle_perm_def by (rule map_random_shuffle[symmetric])
  moreover have pne: "p \<noteq> []"
    using n length_shuffle_perm[of rb n] by (auto simp: p_def)
  ultimately have sh: "random_shuffle rb (zip_star data) = map (\<lambda>i. map (\<lambda>c. c ! i) data) p"
    and shne: "map (\<lambda>i. map (\<lambda>c. c ! i) data) p \<noteq> []"
    by simp_all
  have "\<forall>r \<in> set (map (\<lambda>i. map (\<lambda>c. c ! i) data) p). length r = m"
    by (simp add: m_def)
  from zip_star_uniform[OF shne this]
  have "zip_star (map (\<lambda>i. map (\<lambda>c. c ! i) data) p)
      = map (\<lambda>j. map (\<lambda>r. r ! j) (map (\<lambda>i. map (\<lambda>c. c ! i) data) p)) [0..<m]" .
  also have "\<dots> = map (\<lambda>j. map (\<lambda>i. data ! j ! i) p) [0..<m]"
    by (simp add: m_def)
  also have "\<dots> = map (\<lambda>c. map (\<lambda>i. c ! i) p) (map (\<lambda>j. data ! j) [0..<m])"
    by (simp add: comp_def)
  also have "\<dots> = map (\<lambda>c. map (\<lambda>i. c ! i) p) data"
    by (simp only: m_def map_nth)
  finally show ?thesis
    using n by (simp add: sh p_def)
qed

subsection \<open>Writing the columns back\<close>

lemma update_after_prefix:
  assumes "k \<notin> fst ` set pre"
  shows "AList.update k v (pre @ ys) = pre @ AList.update k v ys"
  using assms by (induction pre) auto

lemma set_columns_prefix:
  assumes "distinct (map fst (pre @ b))" "length vs = length b"
  shows "fold (\<lambda>(k, v) acc. AList.update k v acc) (zip (map fst b) vs) (pre @ b)
       = pre @ zip (map fst b) vs"
  using assms
proof (induction b arbitrary: pre vs)
  case Nil
  then show ?case by simp
next
  case (Cons kc b)
  obtain k c where kc: "kc = (k, c)" by (cases kc)
  obtain v vs' where vs: "vs = v # vs'"
    using Cons.prems(2) by (cases vs) auto
  have nk: "k \<notin> fst ` set pre"
    using Cons.prems(1) by (auto simp: kc)
  have step: "AList.update k v (pre @ (k, c) # b) = (pre @ [(k, v)]) @ b"
    by (simp add: update_after_prefix[OF nk])
  have d: "distinct (map fst ((pre @ [(k, v)]) @ b))"
    using Cons.prems(1) by (simp add: kc)
  have l: "length vs' = length b"
    using Cons.prems(2) by (simp add: vs)
  show ?case
    using Cons.IH[OF d l] by (simp add: kc vs step)
qed

lemma set_columns_all:
  assumes "distinct (map fst b)" "length vs = length b"
  shows "set_columns b vs = zip (map fst b) vs"
  using set_columns_prefix[of "[]" b vs] assms by (simp add: set_columns_def)

lemma set_columns_none: "set_columns b [] = b"
  by (simp add: set_columns_def)

lemma py_slice_prefix_nat: "py_slice None (Some (int k)) xs = take k xs"
  by (simp add: py_slice_prefix)

lemma zip_keys_columns:
  "zip (map fst b) (map f (map snd b)) = map (\<lambda>(k, c). (k, f c)) b"
  by (induction b) auto

lemma zip_keys_columns_comp:
  "zip (map fst b) (map (f \<circ> snd) b) = map (\<lambda>(k, c). (k, f c)) b"
  by (induction b) auto

lemma permute_empty_columns:
  assumes "\<forall>c \<in> set (map snd b). length c = 0"
  shows "map (\<lambda>(k, c). (k, map (\<lambda>i. c ! i) [])) b = b"
  using assms by (induction b) auto

lemma shuffle_store:
  assumes di: "distinct (map fst (store d (inp d)))"
    and dt: "distinct (map fst (store d (tar d)))"
    and len: "\<forall>c \<in> set (map snd (store d (inp d)) @ map snd (store d (tar d))). length c = n"
  shows "store (shuffle rb d) =
         (store d)
           (inp d := map (\<lambda>(k, c). (k, map (\<lambda>i. c ! i) (shuffle_perm rb n))) (store d (inp d)),
            tar d := map (\<lambda>(k, c). (k, map (\<lambda>i. c ! i) (shuffle_perm rb n))) (store d (tar d)))"
proof -
  define h where "h = store d"
  define bi where "bi = h (inp d)"
  define bt where "bt = h (tar d)"
  define p where "p = shuffle_perm rb n"
  define P :: "'a coldict \<Rightarrow> 'a coldict" where "P = map (\<lambda>(k, c). (k, map (\<lambda>i. c ! i) p))"
  define cols where "cols = zip_star (random_shuffle rb (zip_star (map snd bi @ map snd bt)))"
  have cols: "cols = (if n = 0 then [] else map (\<lambda>c. map (\<lambda>i. c ! i) p) (map snd bi @ map snd bt))"
    unfolding cols_def p_def
    by (rule shuffled_columns) (use len in \<open>simp add: bi_def bt_def h_def\<close>)
  have keysP: "map fst (P b) = map fst b" for b
    by (simp add: P_def comp_def case_prod_beta)
  have lenP: "length (P b) = length b" for b
    by (simp add: P_def)
  have first: "set_columns bi (py_slice None (Some (int (length bi))) cols) = P bi"
  proof (cases "n = 0")
    case True
    then have "p = []"
      using length_shuffle_perm[of rb n] by (simp add: p_def)
    moreover have "\<forall>c \<in> set (map snd bi). length c = 0"
      using len True by (simp add: bi_def h_def)
    ultimately have "P bi = bi"
      unfolding P_def by (simp only: permute_empty_columns)
    then show ?thesis
      using True by (simp add: cols py_slice_prefix_nat set_columns_none)
  next
    case False
    then have "py_slice None (Some (int (length bi))) cols = map (\<lambda>c. map (\<lambda>i. c ! i) p) (map snd bi)"
      by (simp add: cols py_slice_prefix_nat)
    then show ?thesis
      using di by (simp add: set_columns_all zip_keys_columns_comp P_def bi_def h_def)
  qed
  define h1 where "h1 = h(inp d := P bi)"
  have h1t: "h1 (tar d) = (if tar d = inp d then P bi else bt)"
    by (simp add: h1_def bt_def)
  have l1: "length (h1 (inp d)) = length bi"
    by (simp add: h1_def lenP)
  have second: "set_columns (h1 (tar d)) (py_slice (Some (int (length (h1 (inp d))))) None cols) = P bt"
  proof (cases "n = 0")
    case True
    then have "p = []"
      using length_shuffle_perm[of rb n] by (simp add: p_def)
    moreover have "\<forall>c \<in> set (map snd bt). length c = 0" "\<forall>c \<in> set (map snd bi). length c = 0"
      using len True by (simp_all add: bi_def bt_def h_def)
    ultimately have "P bt = bt" "P bi = bi"
      unfolding P_def by (simp_all only: permute_empty_columns)
    then have "h1 (tar d) = bt"
      by (simp add: h1t bi_def bt_def)
    then show ?thesis
      using True \<open>P bt = bt\<close> by (simp add: cols py_slice_from set_columns_none)
  next
    case False
    then have s: "py_slice (Some (int (length (h1 (inp d))))) None cols
        = map (\<lambda>c. map (\<lambda>i. c ! i) p) (map snd bt)"
      by (simp add: cols py_slice_from l1)
    have k: "map fst (h1 (tar d)) = map fst bt"
      by (simp add: h1t keysP bi_def bt_def)
    have "distinct (map fst (h1 (tar d)))"
      using dt by (simp add: k bt_def h_def)
    moreover have "length (map (\<lambda>c. map (\<lambda>i. c ! i) p) (map snd bt)) = length (h1 (tar d))"
      using arg_cong[OF k, of length] by simp
    ultimately have "set_columns (h1 (tar d)) (map (\<lambda>c. map (\<lambda>i. c ! i) p) (map snd bt))
        = zip (map fst (h1 (tar d))) (map (\<lambda>c. map (\<lambda>i. c ! i) p) (map snd bt))"
      by (intro set_columns_all) simp_all
    then show ?thesis
      by (simp add: s k zip_keys_columns_comp zip_keys_columns P_def)
  qed
  have "store (shuffle rb d) = h1(tar d := P bt)"
    unfolding shuffle_def Let_def
    using first second
    by (simp add: h_def[symmetric] bi_def[symmetric] bt_def[symmetric] cols_def[symmetric] h1_def[symmetric])
  then show ?thesis
    by (simp add: h1_def P_def p_def bi_def bt_def h_def)
qed

lemma example_perm: "shuffle_perm example_randbelow 7 = [1, 2, 3, 4, 5, 6, 0]"
  by code_simp

subsection \<open>Claim about the synchronized shuffle\<close>

text \<open>
  Claim C1. For a dataset whose two dicts are well formed (distinct keys) and whose
  columns all have the same length \<open>n\<close>, \<open>shuffle\<close> with any random source applies one
  permutation \<open>p\<close> of the indices \<open>0 .. n - 1\<close> to every column of both dicts: each
  column \<open>c\<close> becomes \<open>[c[p[0]], ..., c[p[n-1]]]\<close> under its old key. So position \<open>k\<close> of
  every column holds, after the shuffle, what position \<open>p[k]\<close> of the same column held
  before, and no value changes. The dict addresses, the batch size and the size stay as
  they were. This covers the dataset whose two attributes are the same dict.
\<close>

theorem shuffle_synchronized:
  assumes "distinct (map fst (store d (inp d)))"
    and "distinct (map fst (store d (tar d)))"
    and "\<forall>c \<in> set (map snd (store d (inp d)) @ map snd (store d (tar d))). length c = n"
  shows "mset (shuffle_perm rb n) = mset [0..<n]
       \<and> store (shuffle rb d) (inp (shuffle rb d))
           = map (\<lambda>(k, c). (k, map (\<lambda>i. c ! i) (shuffle_perm rb n))) (store d (inp d))
       \<and> store (shuffle rb d) (tar (shuffle rb d))
           = map (\<lambda>(k, c). (k, map (\<lambda>i. c ! i) (shuffle_perm rb n))) (store d (tar d))
       \<and> inp (shuffle rb d) = inp d \<and> tar (shuffle rb d) = tar d
       \<and> bs (shuffle rb d) = bs d \<and> dsize (shuffle rb d) = dsize d
       \<and> (\<forall>k < n. shuffle_perm rb n ! k < n)"
proof -
  have f: "inp (shuffle rb d) = inp d" "tar (shuffle rb d) = tar d"
    "bs (shuffle rb d) = bs d" "dsize (shuffle rb d) = dsize d"
    by (simp_all add: shuffle_def Let_def)
  have "tar d = inp d \<Longrightarrow> store d (tar d) = store d (inp d)"
    by simp
  moreover have "shuffle_perm rb n ! k < n" if "k < n" for k
  proof -
    have "set (shuffle_perm rb n) = {0..<n}"
      using mset_eq_setD[OF mset_shuffle_perm[of rb n]] by simp
    moreover have "shuffle_perm rb n ! k \<in> set (shuffle_perm rb n)"
      using that by (simp add: length_shuffle_perm)
    ultimately show ?thesis by simp
  qed
  ultimately show ?thesis
    unfolding f shuffle_store[OF assms]
    by (auto simp: mset_shuffle_perm)
qed

theorem shuffle_synchronized_witness:
  "shuffle_perm example_randbelow 7 = [1, 2, 3, 4, 5, 6, 0]
   \<and> store (shuffle example_randbelow example_dataset) (inp (shuffle example_randbelow example_dataset))
       = [(''lyrics'', [11, 12, 13, 14, 15, 16, 10])]
   \<and> store (shuffle example_randbelow example_dataset) (tar (shuffle example_randbelow example_dataset))
       = [(''note'', [21, 22, 23, 24, 25, 26, 20]), (''tempo'', [31, 32, 33, 34, 35, 36, 30])]
   \<and> store (shuffle example_randbelow example_autoencoder)
         (inp (shuffle example_randbelow example_autoencoder))
       = [(''note'', [21, 22, 23, 24, 25, 26, 20]), (''tempo'', [31, 32, 33, 34, 35, 36, 30])]
   \<and> store (shuffle example_randbelow example_autoencoder)
         (tar (shuffle example_randbelow example_autoencoder))
       = [(''note'', [21, 22, 23, 24, 25, 26, 20]), (''tempo'', [31, 32, 33, 34, 35, 36, 30])]"
proof -
  have i: "store example_dataset (inp example_dataset) = [(''lyrics'', [10, 11, 12, 13, 14, 15, 16])]"
    and t: "store example_dataset (tar example_dataset)
      = [(''note'', [20, 21, 22, 23, 24, 25, 26]), (''tempo'', [30, 31, 32, 33, 34, 35, 36])]"
    and i': "store example_autoencoder (inp example_autoencoder)
      = [(''note'', [20, 21, 22, 23, 24, 25, 26]), (''tempo'', [30, 31, 32, 33, 34, 35, 36])]"
    and t': "store example_autoencoder (tar example_autoencoder)
      = [(''note'', [20, 21, 22, 23, 24, 25, 26]), (''tempo'', [30, 31, 32, 33, 34, 35, 36])]"
    by (simp_all add: example_dataset_def example_autoencoder_def)
  have h: "distinct (map fst (store example_dataset (inp example_dataset)))"
    "distinct (map fst (store example_dataset (tar example_dataset)))"
    "\<forall>c \<in> set (map snd (store example_dataset (inp example_dataset))
               @ map snd (store example_dataset (tar example_dataset))). length c = 7"
    unfolding i t by simp_all
  have h': "distinct (map fst (store example_autoencoder (inp example_autoencoder)))"
    "distinct (map fst (store example_autoencoder (tar example_autoencoder)))"
    "\<forall>c \<in> set (map snd (store example_autoencoder (inp example_autoencoder))
               @ map snd (store example_autoencoder (tar example_autoencoder))). length c = 7"
    unfolding i' t' by simp_all
  note s = shuffle_synchronized[OF h, of example_randbelow, unfolded i t example_perm]
  note s' = shuffle_synchronized[OF h', of example_randbelow, unfolded i' t' example_perm]
  have m: "map (\<lambda>(k, c). (k, map (\<lambda>i. c ! i) [1, 2, 3, 4, 5, 6, 0 :: nat]))
        [(''lyrics'', [10, 11, 12, 13, 14, 15, 16 :: int])]
      = [(''lyrics'', [11, 12, 13, 14, 15, 16, 10])]"
    "map (\<lambda>(k, c). (k, map (\<lambda>i. c ! i) [1, 2, 3, 4, 5, 6, 0 :: nat]))
        [(''note'', [20, 21, 22, 23, 24, 25, 26 :: int]), (''tempo'', [30, 31, 32, 33, 34, 35, 36])]
      = [(''note'', [21, 22, 23, 24, 25, 26, 20]), (''tempo'', [31, 32, 33, 34, 35, 36, 30])]"
    by simp_all
  show ?thesis
    by (intro conjI)
      (rule example_perm
        s[THEN conjunct2, THEN conjunct1, unfolded m]
        s[THEN conjunct2, THEN conjunct2, THEN conjunct1, unfolded m]
        s'[THEN conjunct2, THEN conjunct1, unfolded m]
        s'[THEN conjunct2, THEN conjunct2, THEN conjunct1, unfolded m])+
qed

end
